theory Spec2Isabelle
  imports Main "HOL-Library.Word"
begin

unbundle bit_operations_syntax

section \<open>Account provisioning on a GCE instance: accounts.py\<close>

text \<open>
  A shallow embedding of \<^verbatim>\<open>google_daemon/accounts.py\<close> (Python 2).  Python byte
  strings are HOL strings, a text file is its content as one string, and the file
  methods \<^verbatim>\<open>readlines\<close> and \<^verbatim>\<open>writelines\<close> split and concatenate that content.
  Calls of the \<^verbatim>\<open>logging\<close> module change nothing that is modelled and are left out.
\<close>

subsection \<open>Strings and lines\<close>

definition newline :: char where
  "newline = CHR 0x0A"

text \<open>Python's \<^verbatim>\<open>s.startswith(p)\<close> and \<^verbatim>\<open>s.endswith(p)\<close>.\<close>

definition startswith :: "string \<Rightarrow> string \<Rightarrow> bool" where
  "startswith s p = (take (length p) s = p)"

definition endswith :: "string \<Rightarrow> string \<Rightarrow> bool" where
  "endswith s p = (length p \<le> length s \<and> drop (length s - length p) s = p)"

text \<open>
  \<^verbatim>\<open>f.readlines()\<close>: the content is cut after every newline character, the newline
  stays with its line, and a last piece without newline is a line of its own.
  The first argument is the line being collected.
\<close>

fun readlines_from :: "string \<Rightarrow> string \<Rightarrow> string list" where
  "readlines_from cur [] = (if cur = [] then [] else [cur])"
| "readlines_from cur (c # cs) =
     (if c = newline then (cur @ [c]) # readlines_from [] cs
      else readlines_from (cur @ [c]) cs)"

definition readlines :: "string \<Rightarrow> string list" where
  "readlines content = readlines_from [] content"

text \<open>\<^verbatim>\<open>f.writelines(lines)\<close> writes the strings one after the other, adding nothing.\<close>

definition writelines :: "string list \<Rightarrow> string" where
  "writelines ls = concat ls"

definition EnsureTrailingNewline :: "string \<Rightarrow> string" where
  "EnsureTrailingNewline line =
     (if endswith line [newline] then line else line @ [newline])"

subsection \<open>User names\<close>

definition VALID_USERNAME_CHARS :: "char set" where
  "VALID_USERNAME_CHARS = set (
     map char_of [of_char CHR ''A'' ..< (of_char CHR ''Z'' + 1 :: nat)] @
     map char_of [of_char CHR ''a'' ..< (of_char CHR ''z'' + 1 :: nat)] @
     map char_of [of_char CHR ''0'' ..< (of_char CHR ''9'' + 1 :: nat)] @
     [CHR ''_'', CHR ''-'', CHR ''.''])"

definition InvalidCharacterFilter :: "char \<Rightarrow> bool" where
  "InvalidCharacterFilter c = (c \<notin> VALID_USERNAME_CHARS)"

definition IsValidUsername :: "string \<Rightarrow> bool" where
  "IsValidUsername username =
     (if filter InvalidCharacterFilter username \<noteq> [] then False
      else if startswith username ''-'' then False
      else True)"

text \<open>The character set as the specification writes it: \<^verbatim>\<open>[A-Za-z0-9._-]\<close>.\<close>

definition spec_username_chars :: "char set" where
  "spec_username_chars =
     set ''ABCDEFGHIJKLMNOPQRSTUVWXYZabcdefghijklmnopqrstuvwxyz0123456789._-''"

subsection \<open>Exceptions, fault sites and the environment\<close>

text \<open>
  The operating system is reached through injected modules.  Every call that can
  raise is a fault site; the environment says which sites raise in a run, what
  the policy checker answers for a file, and what the account database does.
  It also says what \<^verbatim>\<open>re\<close> does with the patterns that are not computed here.
  Calls of \<^verbatim>\<open>os\<close> raise \<^verbatim>\<open>OSError\<close> with an error number, file objects and
  \<^verbatim>\<open>OpenFile\<close> raise \<^verbatim>\<open>IOError\<close>; the policy checker may raise any exception,
  also one that is neither of the two.
\<close>

datatype errno = EEXIST | ENOENT | EOTHER

datatype exn = IOError | OSError errno | ReError | OtherError

text \<open>How a method ends: it returns, or an exception leaves it.\<close>

datatype outcome = Returned | Raised exn

text \<open>How a block of statements ends: at its end, by \<^verbatim>\<open>return\<close>, or by an exception.\<close>

datatype ctl = Next | Return | Raise exn

datatype site =
    AtOpenRead1 | AtLockOpen | AtLockClose | AtOpenRead2 | AtMkstemp | AtFdopen | AtWriteTmp
  | AtValidate | AtChmod | AtOpenWrite | AtWriteLive | AtFchmod1 | AtFchmod2 | AtUnlinkTmp
  | AtUnlinkLock
  | AtCreateTempFile | AtOpenKeys | AtFchmodKeys | AtFchownKeys | AtWriteKeys | AtMoveFile

type_synonym passwd_db = "string \<rightharpoonup> (string \<times> nat \<times> nat)"

record env =
  fails :: "site \<Rightarrow> bool"
  re_other :: "string \<Rightarrow> (string \<Rightarrow> bool) option"
  IsValidSudoersFile :: "string option \<Rightarrow> bool"
  checker_raises :: exn
  UserAdd :: "string \<Rightarrow> string list \<Rightarrow> passwd_db \<Rightarrow> passwd_db"
  group_db :: "string set"
  creator :: "nat \<times> nat"

text \<open>
  \<^verbatim>\<open>IsValidSudoersFile\<close> and \<^verbatim>\<open>UserAdd\<close> are methods of the system module, whose
  source is not among the files at hand; they are parameters here.  The checker
  is given what is stored under the file name it is called with (\<open>None\<close>: no
  such file) and raises \<open>checker_raises\<close> when it fails; \<^verbatim>\<open>UserAdd\<close> may or may
  not add the account; \<open>creator\<close> is the uid and gid a new temporary file gets.
\<close>

text \<open>
  Modelled from the spec: \<^verbatim>\<open>OpenFile\<close> is a method of the system module, whose
  source is not among the files at hand.  By the specification's file primitives
  (open, read, write) and by what its callers do with the result, a Python file
  object, it is Python's \<^verbatim>\<open>open\<close>.  Mode \<^verbatim>\<open>'r'\<close> gives the content of a file that
  is there; mode \<^verbatim>\<open>'w'\<close> leaves the file empty, to be written.  A failure is an
  \<^verbatim>\<open>IOError\<close>.
\<close>

definition OpenFile_r :: "env \<Rightarrow> site \<Rightarrow> string option \<Rightarrow> exn + string" where
  "OpenFile_r env at file =
     (if fails env at then Inl IOError
      else case file of None \<Rightarrow> Inl IOError | Some text \<Rightarrow> Inr text)"

definition OpenFile_w :: "env \<Rightarrow> site \<Rightarrow> string option \<Rightarrow> exn + string option" where
  "OpenFile_w env at file = (if fails env at then Inl IOError else Inr (Some []))"

subsection \<open>The membership test on sudoers lines\<close>

text \<open>
  \<^verbatim>\<open>re.match(r'^%s\s+' % user, line)\<close> puts the user name into the pattern as it
  is, without escaping.  A character of the name that is not special to \<^verbatim>\<open>re\<close>
  stands for itself, and a dot stands for any character but a newline; with
  these two kinds of atoms the match is computed here.  \<^verbatim>\<open>\s\<close> is one of the six
  ASCII whitespace characters.
\<close>

datatype atom = Lit char | Dot

definition user_pattern :: "string \<Rightarrow> atom list" where
  "user_pattern user = map (\<lambda>c. if c = CHR ''.'' then Dot else Lit c) user"

text \<open>Matching the atoms at the start of a string returns what is left of it.\<close>

fun match_atoms :: "atom list \<Rightarrow> string \<Rightarrow> string option" where
  "match_atoms [] s = Some s"
| "match_atoms (a # as) [] = None"
| "match_atoms (Lit c # as) (d # s) = (if d = c then match_atoms as s else None)"
| "match_atoms (Dot # as) (d # s) = (if d \<noteq> newline then match_atoms as s else None)"

definition is_space :: "char \<Rightarrow> bool" where
  "is_space c = (c \<in> set [CHR '' '', CHR 0x09, CHR 0x0A, CHR 0x0D, CHR 0x0C, CHR 0x0B])"

definition re_match_plain :: "string \<Rightarrow> string \<Rightarrow> bool" where
  "re_match_plain user line =
     (case match_atoms (user_pattern user) line of
        Some (c # rest) \<Rightarrow> is_space c
      | _ \<Rightarrow> False)"

text \<open>
  The other special characters of \<^verbatim>\<open>re\<close>: \<^verbatim>\<open>^ $ * + ? { } [ ] | ( )\<close> and the
  backslash.  For a name with one of them the pattern is whatever \<^verbatim>\<open>re\<close> makes of
  it, which the environment says (\<open>re_other\<close>): a matcher, or nothing when \<^verbatim>\<open>re\<close>
  rejects the pattern and raises its error.  No valid user name has such a
  character.
\<close>

definition other_specials :: string where
  "other_specials = ''^$*+?{}[]|()'' @ [CHR 0x5C]"

definition plain_name :: "string \<Rightarrow> bool" where
  "plain_name user = (filter (\<lambda>c. c \<in> set other_specials) user = [])"

definition re_compile :: "env \<Rightarrow> string \<Rightarrow> (string \<Rightarrow> bool) option" where
  "re_compile env user =
     (if plain_name user then Some (re_match_plain user) else re_other env user)"

definition IsUserSudoerEntry :: "env \<Rightarrow> string \<Rightarrow> string \<Rightarrow> exn + bool" where
  "IsUserSudoerEntry env user line =
     (case re_compile env user of
        None \<Rightarrow> Inl ReError
      | Some matcher \<Rightarrow> Inr (matcher line))"

text \<open>
  Python 2's \<^verbatim>\<open>filter\<close> calls the test on the lines in their order and returns
  the list of the lines that pass; an exception of the test ends it.  The
  callers test the list for being non-empty.
\<close>

fun filter_raising :: "('a \<Rightarrow> exn + bool) \<Rightarrow> 'a list \<Rightarrow> exn + 'a list" where
  "filter_raising test [] = Inr []"
| "filter_raising test (x # xs) =
     (case test x of
        Inl e \<Rightarrow> Inl e
      | Inr b \<Rightarrow>
          (case filter_raising test xs of
             Inl e \<Rightarrow> Inl e
           | Inr ys \<Rightarrow> Inr (if b then x # ys else ys)))"

definition IsUserSudoerInLines :: "env \<Rightarrow> string \<Rightarrow> string list \<Rightarrow> exn + string list" where
  "IsUserSudoerInLines env user sudoer_lines =
     filter_raising (IsUserSudoerEntry env user) sudoer_lines"

subsection \<open>The sudoers file and its lock\<close>

text \<open>
  The files \<^verbatim>\<open>MakeUserSudoer\<close> touches: \<^verbatim>\<open>/etc/sudoers\<close> (\<open>None\<close>: not a regular
  file) with its permission bits, the lock marker \<^verbatim>\<open>/etc/sudoers.tmp\<close>, and the
  file made by \<^verbatim>\<open>tempfile.mkstemp\<close>.
\<close>

record fs =
  sudoers :: "string option"
  sudoers_mode :: nat
  lock :: bool
  tmp :: "string option"

text \<open>
  A run carries the current state and the states it has left behind, oldest
  first: what an observer of the file system could have seen.
\<close>

type_synonym run = "fs \<times> fs list"

definition put :: "(fs \<Rightarrow> fs) \<Rightarrow> run \<Rightarrow> run" where
  "put f r = (f (fst r), snd r @ [fst r])"

definition observations :: "run \<Rightarrow> fs list" where
  "observations r = snd r @ [fst r]"

text \<open>\<^verbatim>\<open>os.open('/etc/sudoers.tmp', os.O_EXCL|os.O_CREAT)\<close> and \<^verbatim>\<open>os.unlink\<close> of it.\<close>

definition os_open_excl :: "env \<Rightarrow> run \<Rightarrow> errno + run" where
  "os_open_excl env r =
     (if lock (fst r) then Inl EEXIST
      else if fails env AtLockOpen then Inl EOTHER
      else Inr (put (\<lambda>s. s\<lparr>lock := True\<rparr>) r))"

definition os_unlink_lock :: "env \<Rightarrow> run \<Rightarrow> errno + run" where
  "os_unlink_lock env r =
     (if fails env AtUnlinkLock then Inl EOTHER
      else if \<not> lock (fst r) then Inl ENOENT
      else Inr (put (\<lambda>s. s\<lparr>lock := False\<rparr>) r))"

definition LockSudoers :: "env \<Rightarrow> run \<Rightarrow> bool \<times> run" where
  "LockSudoers env r =
     (case os_open_excl env r of
        Inr r1 \<Rightarrow> if fails env AtLockClose then (False, r1) else (True, r1)
      | Inl e \<Rightarrow> (False, r))"

definition UnlockSudoers :: "env \<Rightarrow> run \<Rightarrow> bool \<times> run" where
  "UnlockSudoers env r =
     (case os_unlink_lock env r of
        Inr r1 \<Rightarrow> (True, r1)
      | Inl e \<Rightarrow> if e = ENOENT then (True, r) else (False, r))"

text \<open>\<^verbatim>\<open>with self.system.OpenFile('/etc/sudoers', 'r') as sudoer_f: sudoer_f.readlines()\<close>\<close>

definition read_sudoers :: "env \<Rightarrow> site \<Rightarrow> fs \<Rightarrow> exn + string list" where
  "read_sudoers env at s =
     (case OpenFile_r env at (sudoers s) of
        Inl e \<Rightarrow> Inl e
      | Inr text \<Rightarrow> Inr (readlines text))"

text \<open>Lines 197 and 198: the rule is appended and every line ends in a newline.\<close>

definition candidate_lines :: "string \<Rightarrow> string list \<Rightarrow> string list" where
  "candidate_lines user sudoer_lines =
     map EnsureTrailingNewline (sudoer_lines @ [user @ '' ALL=NOPASSWD: ALL''])"

text \<open>
  Lines 212 to 220.  Opening \<^verbatim>\<open>/etc/sudoers\<close> with mode \<^verbatim>\<open>'w'\<close> empties the file;
  the lines are then written into it.  The modes are 0640 = 416, \<^verbatim>\<open>S_IWUSR\<close> = 128
  and 0440 = 288.  A failure of the last \<^verbatim>\<open>fchmod\<close> is caught on the spot.
\<close>

definition write_live :: "env \<Rightarrow> string list \<Rightarrow> run \<Rightarrow> ctl \<times> run" where
  "write_live env sudoer_lines r =
     (if fails env AtChmod then (Raise (OSError EOTHER), r) else
      let r1 = put (\<lambda>s. s\<lparr>sudoers_mode := 416\<rparr>) r in
      case OpenFile_w env AtOpenWrite (sudoers (fst r1)) of
        Inl e \<Rightarrow> (Raise e, r1)
      | Inr emptied \<Rightarrow>
      let r2 = put (\<lambda>s. s\<lparr>sudoers := emptied\<rparr>) r1 in
      if fails env AtWriteLive then (Raise IOError, r2) else
      let r3 = put (\<lambda>s. s\<lparr>sudoers := Some (writelines sudoer_lines)\<rparr>) r2 in
      if fails env AtFchmod1 then (Raise (OSError EOTHER), r3) else
      let r4 = put (\<lambda>s. s\<lparr>sudoers_mode := 128 OR 416\<rparr>) r3 in
      if fails env AtFchmod2 then (Next, r4)
      else (Next, put (\<lambda>s. s\<lparr>sudoers_mode := 288\<rparr>) r4))"

text \<open>
  Lines 205 to 220: the body of the inner \<^verbatim>\<open>try\<close>.  The policy checker is asked
  about the temporary file; on its refusal the method returns.
\<close>

definition validate_and_write :: "env \<Rightarrow> string list \<Rightarrow> run \<Rightarrow> ctl \<times> run" where
  "validate_and_write env sudoer_lines r =
     (if fails env AtValidate then (Raise (checker_raises env), r)
      else if \<not> IsValidSudoersFile env (tmp (fst r)) then (Return, r)
      else write_live env sudoer_lines r)"

text \<open>
  Lines 221 to 226: the \<^verbatim>\<open>finally\<close> of the inner \<^verbatim>\<open>try\<close> removes the temporary
  file on every way out and swallows a failure of that removal.
\<close>

definition validated_write :: "env \<Rightarrow> string list \<Rightarrow> run \<Rightarrow> ctl \<times> run" where
  "validated_write env sudoer_lines r =
     (let (c, r1) = validate_and_write env sudoer_lines r
      in (c, if fails env AtUnlinkTmp then r1 else put (\<lambda>s. s\<lparr>tmp := None\<rparr>) r1))"

text \<open>Lines 188 to 226: the body of the outer \<^verbatim>\<open>try\<close>, run under the lock.\<close>

definition critical_section :: "env \<Rightarrow> string \<Rightarrow> run \<Rightarrow> ctl \<times> run" where
  "critical_section env user r =
     (case read_sudoers env AtOpenRead2 (fst r) of
        Inl e \<Rightarrow> (Raise e, r)
      | Inr sudoer_lines \<Rightarrow>
          case IsUserSudoerInLines env user sudoer_lines of
            Inl e \<Rightarrow> (Raise e, r)
          | Inr found \<Rightarrow>
          if found \<noteq> [] then (Return, r) else
          let sudoer_lines = candidate_lines user sudoer_lines in
          if fails env AtMkstemp then (Raise (OSError EOTHER), r) else
          let r1 = put (\<lambda>s. s\<lparr>tmp := Some []\<rparr>) r in
          if fails env AtFdopen then (Raise (OSError EOTHER), r1) else
          if fails env AtWriteTmp then (Raise IOError, r1) else
          let r2 = put (\<lambda>s. s\<lparr>tmp := Some (writelines sudoer_lines)\<rparr>) r1 in
          validated_write env sudoer_lines r2)"

text \<open>
  The whole method.  The first read and the first membership test are outside
  every \<^verbatim>\<open>try\<close>, so their exceptions leave the method.  Under the lock, \<^verbatim>\<open>except (IOError, OSError)\<close> catches those
  two kinds of exception, any other leaves the method, and \<^verbatim>\<open>finally\<close> unlocks
  in every case; the answer of \<^verbatim>\<open>UnlockSudoers\<close> is not looked at.
\<close>

definition MakeUserSudoer :: "env \<Rightarrow> string \<Rightarrow> fs \<Rightarrow> outcome \<times> run" where
  "MakeUserSudoer env user s =
     (if sudoers s = None then (Returned, (s, []))
      else case read_sudoers env AtOpenRead1 s of
        Inl e \<Rightarrow> (Raised e, (s, []))
      | Inr sudoer_lines \<Rightarrow>
          case IsUserSudoerInLines env user sudoer_lines of
            Inl e \<Rightarrow> (Raised e, (s, []))
          | Inr found \<Rightarrow>
          if found \<noteq> [] then (Returned, (s, []))
          else (case LockSudoers env (s, []) of
                  (False, r) \<Rightarrow> (Returned, r)
                | (True, r) \<Rightarrow>
                    (let (c, r1) = critical_section env user r;
                         r2 = snd (UnlockSudoers env r1)
                     in ((case c of
                            Raise IOError \<Rightarrow> Returned
                          | Raise (OSError n) \<Rightarrow> Returned
                          | Raise ReError \<Rightarrow> Raised ReError
                          | Raise OtherError \<Rightarrow> Raised OtherError
                          | Return \<Rightarrow> Returned
                          | Next \<Rightarrow> Returned), r2))))"

subsection \<open>Creating a user\<close>

definition UserExists :: "passwd_db \<Rightarrow> string \<Rightarrow> bool" where
  "UserExists db user = (case db user of Some pwent \<Rightarrow> True | None \<Rightarrow> False)"

definition GroupsThatExist :: "env \<Rightarrow> string list \<Rightarrow> string list" where
  "GroupsThatExist env groups_list = filter (\<lambda>group. group \<in> group_db env) groups_list"

definition default_user_groups :: "env \<Rightarrow> string list" where
  "default_user_groups env = GroupsThatExist env [''adm'', ''video'', ''dip'', ''plugdev'']"

text \<open>
  \<^verbatim>\<open>CreateUser\<close> is followed through its calls: the look-ups in the account
  database, \<^verbatim>\<open>UserAdd\<close>, \<^verbatim>\<open>MakeUserSudoer\<close> (run on the sudoers state) and
  \<^verbatim>\<open>AuthorizeSshKeys\<close>, which is recorded as a call and touches neither the
  account database nor the sudoers files.  An exception of \<^verbatim>\<open>MakeUserSudoer\<close>
  leaves \<^verbatim>\<open>CreateUser\<close> before the keys are authorized.
\<close>

datatype call =
    CallUserExists string
  | CallUserAdd string "string list"
  | CallMakeUserSudoer string
  | CallAuthorizeSshKeys string "string list"

definition CreateUser ::
  "env \<Rightarrow> string \<Rightarrow> string list \<Rightarrow> passwd_db \<times> fs \<Rightarrow> call list \<times> passwd_db \<times> fs" where
  "CreateUser env username ssh_keys m =
     (let (db, s) = m in
      if \<not> IsValidUsername username then ([], db, s)
      else
        let (calls, db1) =
          (if \<not> UserExists db username
           then ([CallUserExists username, CallUserAdd username (default_user_groups env)],
                 UserAdd env username (default_user_groups env) db)
           else ([CallUserExists username], db))
        in if UserExists db1 username then
             (case MakeUserSudoer env username s of
                (Returned, r) \<Rightarrow>
                  (calls @ [CallUserExists username, CallMakeUserSudoer username,
                            CallAuthorizeSshKeys username ssh_keys], db1, fst r)
              | (Raised e, r) \<Rightarrow>
                  (calls @ [CallUserExists username, CallMakeUserSudoer username], db1, fst r))
           else (calls @ [CallUserExists username], db1, s))"

subsection \<open>The authorized keys file\<close>

record keyfile =
  content :: string
  mode :: nat
  owner :: "nat \<times> nat"

text \<open>
  The file under \<^verbatim>\<open>authorized_keys_file\<close> (\<open>None\<close>: the path does not exist) and
  the temporary file of \<^verbatim>\<open>CreateTempFile(delete=False)\<close>.
\<close>

record keyfs =
  authorized_keys :: "keyfile option"
  new_keys :: "keyfile option"

definition google_marker :: string where
  "google_marker = ''# Added by Google''"

text \<open>Lines 342 to 347, on the indices of the lines as the source does.\<close>

definition google_added_ixs :: "string list \<Rightarrow> nat list" where
  "google_added_ixs lines =
     (let ixs = [i \<leftarrow> [0 ..< length lines - 1]. startswith (lines ! i) google_marker]
      in ixs @ map (\<lambda>i. i + 1) ixs)"

definition user_lines :: "string list \<Rightarrow> string list" where
  "user_lines lines =
     [lines ! i. i \<leftarrow> [0 ..< length lines], i \<notin> set (google_added_ixs lines)]"

text \<open>Lines 354 to 360: what the two loops write into the temporary file.\<close>

definition keys_file_content :: "string list \<Rightarrow> string list \<Rightarrow> string" where
  "keys_file_content preserved ssh_keys =
     concat (map EnsureTrailingNewline preserved) @
     concat (map (\<lambda>ssh_key. (google_marker @ [newline]) @ EnsureTrailingNewline ssh_key) ssh_keys)"

text \<open>
  Modelled from the spec: \<^verbatim>\<open>CreateTempFile\<close> and \<^verbatim>\<open>MoveFile\<close> are methods of the
  system module, whose source is not among the files at hand.  By the
  specification, the first creates a new temporary file, which is empty, has
  mode 0600 = 384 and belongs to the process; the second replaces what is under
  the destination name by the temporary file, as a rename does.
\<close>

definition CreateTempFile :: "env \<Rightarrow> keyfs \<Rightarrow> exn + keyfs" where
  "CreateTempFile env k =
     (if fails env AtCreateTempFile then Inl (OSError EOTHER)
      else Inr (k\<lparr>new_keys := Some \<lparr>content = [], mode = 384, owner = creator env\<rparr>\<rparr>))"

definition MoveFile :: "env \<Rightarrow> keyfs \<Rightarrow> exn + keyfs" where
  "MoveFile env k =
     (if fails env AtMoveFile then Inl (OSError EOTHER)
      else Inr (k\<lparr>authorized_keys := new_keys k, new_keys := None\<rparr>))"

text \<open>Lines 334 to 339: the lines of the keys file, none if there is no such file.\<close>

definition read_keys :: "env \<Rightarrow> keyfs \<Rightarrow> exn + string list" where
  "read_keys env k =
     (case authorized_keys k of
        None \<Rightarrow> Inr []
      | Some f \<Rightarrow>
          (case OpenFile_r env AtOpenKeys (Some (content f)) of
             Inl e \<Rightarrow> Inl e
           | Inr text \<Rightarrow> Inr (readlines text)))"

text \<open>
  The method has no \<^verbatim>\<open>try\<close>: an exception leaves it, and the temporary file
  stays behind.
\<close>

definition WriteAuthorizedSshKeysFile ::
  "env \<Rightarrow> string list \<Rightarrow> nat \<Rightarrow> nat \<Rightarrow> keyfs \<Rightarrow> outcome \<times> keyfs" where
  "WriteAuthorizedSshKeysFile env ssh_keys uid gid k =
     (case CreateTempFile env k of
        Inl e \<Rightarrow> (Raised e, k)
      | Inr k1 \<Rightarrow>
      case read_keys env k1 of
        Inl e \<Rightarrow> (Raised e, k1)
      | Inr lines \<Rightarrow>
          let preserved = user_lines lines in
          if fails env AtFchmodKeys then (Raised (OSError EOTHER), k1) else
          let k2 = k1\<lparr>new_keys := map_option (\<lambda>f. f\<lparr>mode := 384\<rparr>) (new_keys k1)\<rparr> in
          if fails env AtFchownKeys then (Raised (OSError EOTHER), k2) else
          let k3 = k2\<lparr>new_keys := map_option (\<lambda>f. f\<lparr>owner := (uid, gid)\<rparr>) (new_keys k2)\<rparr> in
          if fails env AtWriteKeys then (Raised IOError, k3) else
          let k4 = k3\<lparr>new_keys :=
                     map_option (\<lambda>f. f\<lparr>content := keys_file_content preserved ssh_keys\<rparr>)
                       (new_keys k3)\<rparr> in
          (case MoveFile env k4 of
             Inl e \<Rightarrow> (Raised e, k4)
           | Inr k5 \<Rightarrow> (Returned, k5)))"

subsection \<open>The specification's reading of a rule line\<close>

text \<open>
  The specification's words for the membership test: a line that begins with
  the user name, as a literal string, followed by whitespace.
\<close>

definition spec_rule_line :: "string \<Rightarrow> string \<Rightarrow> bool" where
  "spec_rule_line user line =
     (startswith line user \<and> length user < length line \<and> is_space (line ! length user))"

text \<open>
  The rule lines of a sudoers file for a user, in the specification's reading.
\<close>

definition rule_lines :: "string \<Rightarrow> string \<Rightarrow> string list" where
  "rule_lines user text = filter (spec_rule_line user) (readlines text)"

subsection \<open>The specification's reading of the authorized keys file\<close>

text \<open>
  The specification's data model: the file is a sequence of entries, a managed
  pair (the marker comment line, then a key line) or an unmanaged line.
\<close>

datatype entry = Unmanaged string | Managed string

fun render :: "entry list \<Rightarrow> string list" where
  "render [] = []"
| "render (Unmanaged line # es) = line # render es"
| "render (Managed key # es) = (google_marker @ [newline]) # key # render es"

fun unmanaged :: "entry list \<Rightarrow> string list" where
  "unmanaged [] = []"
| "unmanaged (Unmanaged line # es) = line # unmanaged es"
| "unmanaged (Managed key # es) = unmanaged es"

fun managed :: "entry list \<Rightarrow> string list" where
  "managed [] = []"
| "managed (Unmanaged line # es) = managed es"
| "managed (Managed key # es) = key # managed es"

text \<open>
  The specification's words for the lines left out: a line that is not the last
  and exactly matches the marker comment (with or without its newline), or the
  line right after such a line.
\<close>

definition spec_marker_line :: "string \<Rightarrow> bool" where
  "spec_marker_line line = (line = google_marker \<or> line = google_marker @ [newline])"

definition spec_excluded :: "string list \<Rightarrow> nat \<Rightarrow> bool" where
  "spec_excluded lines i =
     ((Suc i < length lines \<and> spec_marker_line (lines ! i)) \<or>
      (0 < i \<and> i < length lines \<and> spec_marker_line (lines ! (i - 1))))"

subsection \<open>The choice of lines, by recursion\<close>

text \<open>
  Two readings of lines 342 to 347 used in the proofs.  \<open>dropped\<close> says whether
  the line at an index is left out, given whether the line before the list
  began with the marker; \<open>keep\<close> walks the lines once and carries that flag.
\<close>

definition dropped :: "bool \<Rightarrow> string list \<Rightarrow> nat \<Rightarrow> bool" where
  "dropped after xs i =
     ((Suc i < length xs \<and> startswith (xs ! i) google_marker) \<or>
      (if i = 0 then after else startswith (xs ! (i - 1)) google_marker))"

fun keep :: "bool \<Rightarrow> string list \<Rightarrow> string list" where
  "keep after [] = []"
| "keep after [x] = (if after then [] else [x])"
| "keep after (x # y # ys) =
     (if startswith x google_marker \<or> after then keep (startswith x google_marker) (y # ys)
      else x # keep False (y # ys))"

subsection \<open>Inputs of the examples\<close>

text \<open>
  An environment in which nothing fails and the policy checker accepts, one in
  which the checker refuses, and one in which writing the live file fails.
\<close>

definition env_ok :: env where
  "env_ok = \<lparr>fails = (\<lambda>at. False), re_other = (\<lambda>user. None),
     IsValidSudoersFile = (\<lambda>f. True), checker_raises = OtherError,
     UserAdd = (\<lambda>user groups db. db(user \<mapsto> (''/home/'' @ user, 1000, 1000))),
     group_db = {''adm'', ''video''}, creator = (0, 0)\<rparr>"

definition env_refuse :: env where
  "env_refuse = env_ok\<lparr>IsValidSudoersFile := (\<lambda>f. False)\<rparr>"


definition sudoers_root :: fs where
  "sudoers_root = \<lparr>sudoers = Some ''root ALL=(ALL) ALL\<newline>'', sudoers_mode = 288,
     lock = False, tmp = None\<rparr>"

definition sudoers_locked :: fs where
  "sudoers_locked = sudoers_root\<lparr>lock := True\<rparr>"

text \<open>A sudoers file that already has two rules for \<^verbatim>\<open>alice\<close>.\<close>

definition sudoers_alice_twice :: fs where
  "sudoers_alice_twice =
     \<lparr>sudoers = Some ''alice ALL=(ALL) ALL\<newline>alice ALL=NOPASSWD: ALL\<newline>'',
      sudoers_mode = 288, lock = False, tmp = None\<rparr>"

text \<open>
  Two authorized keys files: one in which the user has written a comment that
  begins like the marker, and one with two lines of the user around a managed
  pair, the last line without newline.
\<close>

definition keys_own_comment :: keyfs where
  "keys_own_comment =
     \<lparr>authorized_keys = Some \<lparr>content = ''# Added by Googler Bob\<newline>ssh-rsa BBBB bob\<newline>'',
        mode = 384, owner = (1000, 1000)\<rparr>,
      new_keys = None\<rparr>"

definition keys_mixed :: keyfs where
  "keys_mixed =
     \<lparr>authorized_keys = Some \<lparr>content =
        ''ssh-rsa UUUU user\<newline># Added by Google\<newline>ssh-rsa OOOO old\<newline>ssh-rsa VVVV user'',
        mode = 384, owner = (1000, 1000)\<rparr>,
      new_keys = None\<rparr>"

definition lines_own_comment :: "string list" where
  "lines_own_comment =
     [''# Added by Googler Bob\<newline>'', ''ssh-rsa BBBB bob\<newline>'', ''ssh-rsa CCCC carol\<newline>'']"

definition lines_trailing_marker :: "string list" where
  "lines_trailing_marker =
     [''ssh-rsa UUUU user\<newline>'', ''# Added by Google\<newline>'', ''ssh-rsa OOOO old\<newline>'',
      ''# Added by Google\<newline>'']"

section \<open>Properties\<close>

subsection \<open>User names\<close>

lemma VALID_USERNAME_CHARS_spec: "VALID_USERNAME_CHARS = spec_username_chars"
  unfolding VALID_USERNAME_CHARS_def spec_username_chars_def by code_simp

lemma filter_invalid_empty:
  "(filter InvalidCharacterFilter u = []) = (set u \<subseteq> VALID_USERNAME_CHARS)"
  by (auto simp: filter_empty_conv InvalidCharacterFilter_def)

lemma startswith_dash: "startswith u ''-'' = (u \<noteq> [] \<and> hd u = CHR ''-'')"
  by (cases u) (auto simp: startswith_def)

text \<open>
  Claim C9.  A user name with a character outside \<^verbatim>\<open>[A-Za-z0-9._-]\<close> is not valid; a
  user name that starts with \<^verbatim>\<open>-\<close> is not valid; a user name made of characters of
  that set only and not starting with \<^verbatim>\<open>-\<close> is valid.
\<close>

theorem IsValidUsername_spec:
  "((\<exists>c \<in> set username. c \<notin> spec_username_chars) \<longrightarrow> \<not> IsValidUsername username) \<and>
   (startswith username ''-'' \<longrightarrow> \<not> IsValidUsername username) \<and>
   (set username \<subseteq> spec_username_chars \<and> \<not> startswith username ''-''
      \<longrightarrow> IsValidUsername username)"
  unfolding IsValidUsername_def filter_invalid_empty VALID_USERNAME_CHARS_spec
  by auto

theorem IsValidUsername_spec_witness:
  "\<not> IsValidUsername ''bad/name'' \<and> \<not> IsValidUsername ''-rf'' \<and> IsValidUsername ''alice.b-1_x''"
proof -
  have "\<exists>c \<in> set ''bad/name''. c \<notin> spec_username_chars"
    by (simp add: spec_username_chars_def)
  moreover have "startswith ''-rf'' ''-''"
    by (simp add: startswith_def)
  moreover have "set ''alice.b-1_x'' \<subseteq> spec_username_chars \<and> \<not> startswith ''alice.b-1_x'' ''-''"
    by (simp add: spec_username_chars_def startswith_def)
  ultimately show ?thesis
    using IsValidUsername_spec [of "''bad/name''"] IsValidUsername_spec [of "''-rf''"]
      IsValidUsername_spec [of "''alice.b-1_x''"]
    by blast
qed

subsection \<open>The membership test\<close>

lemma match_atoms_own_name: "match_atoms (user_pattern u) (u @ rest) = Some rest"
  by (induction u) (auto simp: user_pattern_def newline_def)

lemma match_atoms_literal:
  "CHR ''.'' \<notin> set u \<Longrightarrow>
   match_atoms (user_pattern u) l = (if startswith l u then Some (drop (length u) l) else None)"
proof (induction u arbitrary: l)
  case Nil
  then show ?case by (simp add: user_pattern_def startswith_def)
next
  case (Cons a u)
  then show ?case by (cases l) (auto simp: user_pattern_def startswith_def)
qed

text \<open>A line that begins with the user name and whitespace is always found.\<close>

lemma spec_rule_line_found: "spec_rule_line u l \<Longrightarrow> re_match_plain u l"
proof -
  assume a: "spec_rule_line u l"
  then have "l = u @ drop (length u) l"
    by (metis append_take_drop_id spec_rule_line_def startswith_def)
  moreover from a have "drop (length u) l = l ! length u # drop (Suc (length u)) l"
    by (simp add: spec_rule_line_def Cons_nth_drop_Suc)
  ultimately have "match_atoms (user_pattern u) l = Some (l ! length u # drop (Suc (length u)) l)"
    using match_atoms_own_name [of u "drop (length u) l"] by simp
  with a show ?thesis by (simp add: re_match_plain_def spec_rule_line_def)
qed

text \<open>For a user name without a dot the test is the specification's.\<close>

lemma re_match_plain_no_dot:
  "CHR ''.'' \<notin> set u \<Longrightarrow> re_match_plain u l = spec_rule_line u l"
proof (cases "length u < length l")
  case True
  assume "CHR ''.'' \<notin> set u"
  moreover from True have "drop (length u) l = l ! length u # drop (Suc (length u)) l"
    by (simp add: Cons_nth_drop_Suc)
  ultimately show ?thesis
    using True by (simp add: re_match_plain_def match_atoms_literal spec_rule_line_def)
next
  case False
  assume "CHR ''.'' \<notin> set u"
  with False show ?thesis
    by (simp add: re_match_plain_def match_atoms_literal spec_rule_line_def)
qed

text \<open>For a name without other special characters the test never raises.\<close>

lemma filter_raising_total:
  "(\<And>x. test x = Inr (m x)) \<Longrightarrow> filter_raising test xs = Inr (filter m xs)"
  by (induction xs) auto

lemma IsUserSudoerInLines_plain:
  "plain_name user \<Longrightarrow>
   IsUserSudoerInLines env user ls = Inr (filter (re_match_plain user) ls)"
  by (simp add: IsUserSudoerInLines_def IsUserSudoerEntry_def re_compile_def filter_raising_total)

lemma valid_username_plain: "IsValidUsername user \<Longrightarrow> plain_name user"
proof -
  assume "IsValidUsername user"
  then have "set user \<subseteq> spec_username_chars"
    by (auto simp: IsValidUsername_def filter_invalid_empty VALID_USERNAME_CHARS_spec
        split: if_splits)
  moreover have "spec_username_chars \<inter> set other_specials = {}"
    by (simp add: spec_username_chars_def other_specials_def)
  ultimately show ?thesis
    by (auto simp: plain_name_def filter_empty_conv)
qed

text \<open>
  Claim C6.  For a valid user name the membership test should report a rule
  exactly when some line begins with the name, as a literal string, followed by
  whitespace.  The code does not: for the valid name \<^verbatim>\<open>a.b\<close> and the single line
  \<^verbatim>\<open>axb ALL=(ALL) ALL\<close> it returns that line, although no line begins with
  \<^verbatim>\<open>a.b\<close>; the dot of the name is read as a pattern.
\<close>

theorem IsUserSudoerInLines_dot_is_pattern:
  "IsValidUsername ''a.b'' \<and>
   IsUserSudoerInLines env_ok ''a.b'' [''axb ALL=(ALL) ALL\<newline>''] =
     Inr [''axb ALL=(ALL) ALL\<newline>''] \<and>
   filter (spec_rule_line ''a.b'') [''axb ALL=(ALL) ALL\<newline>''] = []"
  by (simp add: IsValidUsername_def InvalidCharacterFilter_def VALID_USERNAME_CHARS_spec
      spec_username_chars_def IsUserSudoerInLines_def IsUserSudoerEntry_def re_compile_def
      plain_name_def other_specials_def re_match_plain_def user_pattern_def
      newline_def is_space_def spec_rule_line_def startswith_def)

subsection \<open>Creating a user with the empty name\<close>

text \<open>
  Claim C10.  The empty string is a valid user name, so \<^verbatim>\<open>CreateUser\<close> with the
  empty name is not stopped by the validation: its first call is the look-up of
  the account, and when the account does not exist the next call is \<^verbatim>\<open>UserAdd\<close>.
\<close>

theorem CreateUser_empty_username:
  "IsValidUsername [] \<and>
   take 1 (fst (CreateUser env [] ssh_keys (db, s))) = [CallUserExists []] \<and>
   (\<not> UserExists db [] \<longrightarrow>
      take 2 (fst (CreateUser env [] ssh_keys (db, s))) =
        [CallUserExists [], CallUserAdd [] (default_user_groups env)])"
  by (auto simp: IsValidUsername_def startswith_def CreateUser_def Let_def
      split: prod.splits outcome.splits)

theorem CreateUser_empty_username_witness:
  "\<not> UserExists Map.empty [] \<and>
   take 2 (fst (CreateUser env_ok [] [''ssh-rsa AAAA''] (Map.empty, sudoers_root))) =
     [CallUserExists [], CallUserAdd [] [''adm'', ''video'']]"
  using CreateUser_empty_username [of env_ok "[''ssh-rsa AAAA'']" Map.empty sudoers_root]
  by (simp add: UserExists_def default_user_groups_def GroupsThatExist_def env_ok_def)

subsection \<open>What a run of MakeUserSudoer does to the sudoers file\<close>

lemma fst_put: "fst (put f r) = f (fst r)"
  by (simp add: put_def)

lemma observations_put: "observations (put f r) = observations r @ [f (fst r)]"
  by (simp add: put_def observations_def)

lemma fst_in_observations: "fst r \<in> set (observations r)"
  by (simp add: observations_def)

text \<open>
  Each part of the method keeps the content of \<^verbatim>\<open>/etc/sudoers\<close> inside a set \<open>A\<close>
  of contents, as long as \<open>A\<close> has the contents that part may write.
\<close>

lemma write_live_sudoers:
  assumes "\<forall>ob \<in> set (observations r). sudoers ob \<in> A"
    and "Some [] \<in> A" and "Some (writelines ls) \<in> A"
  shows "\<forall>ob \<in> set (observations (snd (write_live env ls r))). sudoers ob \<in> A"
  using assms fst_in_observations [of r]
  by (auto simp: write_live_def OpenFile_w_def Let_def observations_put fst_put)

lemma validated_write_sudoers:
  assumes "\<forall>ob \<in> set (observations r). sudoers ob \<in> A"
    and "IsValidSudoersFile env (tmp (fst r)) \<Longrightarrow> Some [] \<in> A \<and> Some (writelines ls) \<in> A"
  shows "\<forall>ob \<in> set (observations (snd (validated_write env ls r))). sudoers ob \<in> A"
proof -
  let ?body = "validate_and_write env ls r"
  have body: "\<forall>ob \<in> set (observations (snd ?body)). sudoers ob \<in> A"
    using assms write_live_sudoers [of r A ls env] by (simp add: validate_and_write_def)
  then have "sudoers (fst (snd ?body)) \<in> A"
    using fst_in_observations by blast
  with body show ?thesis
    by (simp add: validated_write_def case_prod_unfold Let_def observations_put fst_put)
qed

lemma critical_section_sudoers:
  assumes "\<forall>ob \<in> set (observations r). sudoers ob \<in> A"
    and "sudoers (fst r) = Some c"
    and "IsValidSudoersFile env (Some (writelines (candidate_lines user (readlines c))))
         \<Longrightarrow> Some [] \<in> A \<and> Some (writelines (candidate_lines user (readlines c))) \<in> A"
  shows "\<forall>ob \<in> set (observations (snd (critical_section env user r))). sudoers ob \<in> A"
proof -
  let ?ls = "candidate_lines user (readlines c)"
  let ?r1 = "put (\<lambda>s. s\<lparr>tmp := Some []\<rparr>) r"
  let ?r2 = "put (\<lambda>s. s\<lparr>tmp := Some (writelines ?ls)\<rparr>) ?r1"
  have A: "sudoers (fst r) \<in> A"
    using assms(1) fst_in_observations by blast
  then have r1: "\<forall>ob \<in> set (observations ?r1). sudoers ob \<in> A"
    using assms(1) by (simp add: observations_put)
  with A have r2: "\<forall>ob \<in> set (observations ?r2). sudoers ob \<in> A"
    by (simp add: observations_put fst_put)
  have "tmp (fst ?r2) = Some (writelines ?ls)"
    by (simp add: fst_put)
  with r2 assms(3)
  have "\<forall>ob \<in> set (observations (snd (validated_write env ?ls ?r2))). sudoers ob \<in> A"
    by (intro validated_write_sudoers) auto
  with assms(1,2) r1 show ?thesis
    by (simp add: critical_section_def read_sudoers_def OpenFile_r_def Let_def split: sum.splits)
qed

lemma LockSudoers_sudoers:
  assumes "\<forall>ob \<in> set (observations r). sudoers ob \<in> A"
  shows "\<forall>ob \<in> set (observations (snd (LockSudoers env r))). sudoers ob \<in> A"
  using assms fst_in_observations [of r]
  by (auto simp: LockSudoers_def os_open_excl_def observations_put)

lemma LockSudoers_fst: "sudoers (fst (snd (LockSudoers env r))) = sudoers (fst r)"
  by (simp add: LockSudoers_def os_open_excl_def fst_put)

lemma UnlockSudoers_sudoers:
  assumes "\<forall>ob \<in> set (observations r). sudoers ob \<in> A"
  shows "\<forall>ob \<in> set (observations (snd (UnlockSudoers env r))). sudoers ob \<in> A"
  using assms fst_in_observations [of r]
  by (auto simp: UnlockSudoers_def os_unlink_lock_def observations_put)

lemma MakeUserSudoer_sudoers:
  assumes "sudoers s = Some c" and "Some c \<in> A"
    and "IsValidSudoersFile env (Some (writelines (candidate_lines user (readlines c))))
         \<Longrightarrow> Some [] \<in> A \<and> Some (writelines (candidate_lines user (readlines c))) \<in> A"
  shows "\<forall>ob \<in> set (observations (snd (MakeUserSudoer env user s))). sudoers ob \<in> A"
proof -
  let ?l = "snd (LockSudoers env (s, []))"
  have init: "\<forall>ob \<in> set (observations (s, [])). sudoers ob \<in> A"
    using assms(1,2) by (simp add: observations_def)
  then have l: "\<forall>ob \<in> set (observations ?l). sudoers ob \<in> A"
    by (rule LockSudoers_sudoers)
  moreover have "sudoers (fst ?l) = Some c"
    using assms(1) by (simp add: LockSudoers_fst)
  ultimately
  have "\<forall>ob \<in> set (observations (snd (critical_section env user ?l))). sudoers ob \<in> A"
    using assms(3) by (rule critical_section_sudoers)
  then have
    "\<forall>ob \<in> set (observations (snd (UnlockSudoers env (snd (critical_section env user ?l))))).
       sudoers ob \<in> A"
    by (rule UnlockSudoers_sudoers)
  with init l show ?thesis
    by (simp add: MakeUserSudoer_def case_prod_unfold Let_def split: sum.splits bool.splits)
qed

text \<open>The lock marker is touched by \<^verbatim>\<open>LockSudoers\<close> and \<^verbatim>\<open>UnlockSudoers\<close> only.\<close>

lemma write_live_lock: "lock (fst (snd (write_live env ls r))) = lock (fst r)"
  by (simp add: write_live_def OpenFile_w_def Let_def fst_put)

lemma validated_write_lock: "lock (fst (snd (validated_write env ls r))) = lock (fst r)"
  by (simp add: validated_write_def validate_and_write_def case_prod_unfold Let_def fst_put
      write_live_lock)

lemma critical_section_lock: "lock (fst (snd (critical_section env user r))) = lock (fst r)"
  by (simp add: critical_section_def read_sudoers_def OpenFile_r_def Let_def fst_put
      validated_write_lock split: option.splits sum.splits)


text \<open>The runs of the examples, computed.\<close>

lemmas run_defs =
  MakeUserSudoer_def critical_section_def validated_write_def validate_and_write_def
  write_live_def OpenFile_w_def LockSudoers_def UnlockSudoers_def os_open_excl_def os_unlink_lock_def
  read_sudoers_def OpenFile_r_def put_def observations_def Let_def readlines_def newline_def
  IsUserSudoerInLines_def IsUserSudoerEntry_def re_compile_def plain_name_def other_specials_def
  re_match_plain_def user_pattern_def is_space_def
  candidate_lines_def EnsureTrailingNewline_def endswith_def writelines_def



lemma alice_refused:
  "snd (MakeUserSudoer env_refuse ''alice'' sudoers_root) =
     (sudoers_root,
      [sudoers_root, sudoers_root\<lparr>lock := True\<rparr>,
       sudoers_root\<lparr>lock := True, tmp := Some []\<rparr>,
       sudoers_root\<lparr>lock := True,
         tmp := Some ''root ALL=(ALL) ALL\<newline>alice ALL=NOPASSWD: ALL\<newline>''\<rparr>,
       sudoers_root\<lparr>lock := True\<rparr>])"
  by (simp add: run_defs env_refuse_def env_ok_def sudoers_root_def)




text \<open>
  Claim C2.  If the policy checker reports the candidate file invalid, the
  content of the live sudoers file after the call is its content before the call;
  it is that content at every observation point of the call, too.
\<close>

theorem MakeUserSudoer_invalid_unchanged:
  assumes "sudoers s = Some c"
    and "\<not> IsValidSudoersFile env (Some (writelines (candidate_lines user (readlines c))))"
  shows "sudoers (fst (snd (MakeUserSudoer env user s))) = Some c \<and>
         (\<forall>ob \<in> set (observations (snd (MakeUserSudoer env user s))). sudoers ob = Some c)"
proof -
  have "\<forall>ob \<in> set (observations (snd (MakeUserSudoer env user s))). sudoers ob \<in> {Some c}"
    using assms by (intro MakeUserSudoer_sudoers) auto
  then show ?thesis
    using fst_in_observations [of "snd (MakeUserSudoer env user s)"] by auto
qed

theorem MakeUserSudoer_invalid_unchanged_witness:
  "sudoers sudoers_root = Some ''root ALL=(ALL) ALL\<newline>'' \<and>
   \<not> IsValidSudoersFile env_refuse (Some (writelines (candidate_lines ''alice''
       (readlines ''root ALL=(ALL) ALL\<newline>'')))) \<and>
   sudoers (fst (snd (MakeUserSudoer env_refuse ''alice'' sudoers_root))) =
     Some ''root ALL=(ALL) ALL\<newline>'' \<and>
   length (observations (snd (MakeUserSudoer env_refuse ''alice'' sudoers_root))) = 6"
proof -
  have c: "sudoers sudoers_root = Some ''root ALL=(ALL) ALL\<newline>''"
    by (simp add: sudoers_root_def)
  have r: "\<not> IsValidSudoersFile env_refuse (Some (writelines (candidate_lines ''alice''
       (readlines ''root ALL=(ALL) ALL\<newline>''))))"
    by (simp add: env_refuse_def)
  show ?thesis
    using MakeUserSudoer_invalid_unchanged [OF c r] c r
    by (simp add: alice_refused observations_def)
qed

text \<open>
  Claim C5.  If the lock marker exists, a call of \<^verbatim>\<open>MakeUserSudoer\<close> changes
  nothing: the state is the one it started in and no other state was ever there
  to observe, so the sudoers file was not written.  If moreover the call comes
  to take the lock (the file is there, the first read does not raise and the
  membership test finds no rule), it returns without an exception.
\<close>

theorem MakeUserSudoer_locked_no_write:
  assumes "lock s"
  shows "snd (MakeUserSudoer env user s) = (s, []) \<and>
    (sudoers s = Some c \<and> \<not> fails env AtOpenRead1 \<and>
     IsUserSudoerInLines env user (readlines c) = Inr [] \<longrightarrow>
       fst (MakeUserSudoer env user s) = Returned)"
  using assms
  by (auto simp: MakeUserSudoer_def LockSudoers_def os_open_excl_def read_sudoers_def
      OpenFile_r_def split: sum.splits option.splits)

theorem MakeUserSudoer_locked_no_write_witness:
  "lock sudoers_locked \<and> sudoers sudoers_locked = Some ''root ALL=(ALL) ALL\<newline>'' \<and>
   \<not> fails env_ok AtOpenRead1 \<and>
   IsUserSudoerInLines env_ok ''alice'' (readlines ''root ALL=(ALL) ALL\<newline>'') = Inr [] \<and>
   MakeUserSudoer env_ok ''alice'' sudoers_locked = (Returned, (sudoers_locked, []))"
proof -
  have l: "lock sudoers_locked"
    by (simp add: sudoers_locked_def)
  have c: "sudoers sudoers_locked = Some ''root ALL=(ALL) ALL\<newline>''"
    by (simp add: sudoers_locked_def sudoers_root_def)
  have f: "\<not> fails env_ok AtOpenRead1"
    by (simp add: env_ok_def)
  have n: "IsUserSudoerInLines env_ok ''alice'' (readlines ''root ALL=(ALL) ALL\<newline>'') = Inr []"
    by (simp add: run_defs)
  show ?thesis
    using MakeUserSudoer_locked_no_write
      [OF l, of env_ok "''alice''" "''root ALL=(ALL) ALL\<newline>''"] l c f n
    by (simp add: prod_eq_iff)
qed



subsection \<open>Reading back what was written\<close>

lemma endswith_newline: "endswith l [newline] = (l \<noteq> [] \<and> last l = newline)"
proof (cases l rule: rev_cases)
  case Nil
  then show ?thesis by (simp add: endswith_def)
next
  case (snoc ys y)
  then show ?thesis by (auto simp: endswith_def)
qed

text \<open>A line that \<^verbatim>\<open>readlines\<close> returns has no newline, except perhaps at its end.\<close>

lemma readlines_from_proper:
  "newline \<notin> set cur \<Longrightarrow>
   \<forall>l \<in> set (readlines_from cur cs). l \<noteq> [] \<and> newline \<notin> set (butlast l)"
proof (induction cs arbitrary: cur)
  case Nil
  then show ?case by (auto dest: in_set_butlastD)
next
  case (Cons c cs)
  show ?case
  proof (cases "c = newline")
    case True
    with Cons.prems Cons.IH [of "[]"] show ?thesis by simp
  next
    case False
    with Cons.prems Cons.IH [of "cur @ [c]"] show ?thesis by simp
  qed
qed

lemma EnsureTrailingNewline_shape:
  assumes "l \<noteq> []" and "newline \<notin> set (butlast l)"
  shows "\<exists>body. EnsureTrailingNewline l = body @ [newline] \<and> newline \<notin> set body"
proof (cases "last l = newline")
  case True
  with assms have "EnsureTrailingNewline l = butlast l @ [newline]"
    by (simp add: EnsureTrailingNewline_def endswith_newline) (metis append_butlast_last_id)
  with assms show ?thesis by blast
next
  case False
  with assms have "newline \<notin> set l"
    by (metis append_butlast_last_id Un_iff empty_iff insert_iff list.set(1) list.set(2)
        set_append)
  moreover from False have "EnsureTrailingNewline l = l @ [newline]"
    by (simp add: EnsureTrailingNewline_def endswith_newline)
  ultimately show ?thesis by blast
qed

lemma readlines_from_body:
  "newline \<notin> set body \<Longrightarrow>
   readlines_from cur (body @ newline # rest) = (cur @ body @ [newline]) # readlines_from [] rest"
  by (induction body arbitrary: cur) auto

lemma readlines_writelines:
  assumes "\<forall>l \<in> set ls. \<exists>body. l = body @ [newline] \<and> newline \<notin> set body"
  shows "readlines (writelines ls) = ls"
  using assms
proof (induction ls)
  case Nil
  then show ?case by (simp add: readlines_def writelines_def)
next
  case (Cons l ls)
  then obtain body where "l = body @ [newline]" "newline \<notin> set body"
    by auto
  with Cons show ?case
    by (simp add: readlines_def writelines_def readlines_from_body)
qed

lemma valid_username_no_newline: "IsValidUsername user \<Longrightarrow> newline \<notin> set user"
proof
  assume "IsValidUsername user" and "newline \<in> set user"
  then have "newline \<in> spec_username_chars"
    by (auto simp: IsValidUsername_def filter_invalid_empty VALID_USERNAME_CHARS_spec
        split: if_splits)
  then show False
    by (simp add: spec_username_chars_def newline_def)
qed

lemma readlines_candidate:
  assumes "newline \<notin> set user"
  shows "readlines (writelines (candidate_lines user (readlines c))) =
         candidate_lines user (readlines c)"
proof (rule readlines_writelines, rule ballI)
  fix l
  assume "l \<in> set (candidate_lines user (readlines c))"
  then consider x where "x \<in> set (readlines c)" "l = EnsureTrailingNewline x"
    | "l = EnsureTrailingNewline (user @ '' ALL=NOPASSWD: ALL'')"
    by (auto simp: candidate_lines_def)
  then show "\<exists>body. l = body @ [newline] \<and> newline \<notin> set body"
  proof cases
    case 1
    then show ?thesis
      using readlines_from_proper [of "[]" c] EnsureTrailingNewline_shape [of x]
      by (auto simp: readlines_def)
  next
    case 2
    have "newline \<notin> set (butlast (user @ '' ALL=NOPASSWD: ALL''))"
      using assms by (auto simp: butlast_append newline_def)
    with 2 show ?thesis
      using EnsureTrailingNewline_shape [of "user @ '' ALL=NOPASSWD: ALL''"] by auto
  qed
qed

subsection \<open>Granting twice\<close>

lemma rule_line_text:
  "EnsureTrailingNewline (user @ '' ALL=NOPASSWD: ALL'') = user @ '' ALL=NOPASSWD: ALL\<newline>''"
  unfolding EnsureTrailingNewline_def endswith_newline by (simp add: newline_def)

lemma rule_line_found:
  "re_match_plain user (EnsureTrailingNewline (user @ '' ALL=NOPASSWD: ALL''))"
  by (simp add: rule_line_text re_match_plain_def match_atoms_own_name is_space_def)

lemma rule_line_spec:
  "spec_rule_line user (EnsureTrailingNewline (user @ '' ALL=NOPASSWD: ALL''))"
  by (simp add: rule_line_text spec_rule_line_def startswith_def is_space_def nth_append)

lemma candidate_rule_lines:
  "filter (re_match_plain user) (candidate_lines user ls) =
     filter (re_match_plain user) (map EnsureTrailingNewline ls) @
     [EnsureTrailingNewline (user @ '' ALL=NOPASSWD: ALL'')]"
  by (simp add: candidate_lines_def rule_line_found)

text \<open>A line that is found is still found with more text after it.\<close>

lemma match_atoms_append:
  "match_atoms p l = Some r \<Longrightarrow> match_atoms p (l @ x) = Some (r @ x)"
  by (induction p l rule: match_atoms.induct) (auto split: if_splits)

lemma re_match_plain_append: "re_match_plain user l \<Longrightarrow> re_match_plain user (l @ x)"
  by (auto simp: re_match_plain_def match_atoms_append split: option.splits list.splits)

lemma re_match_plain_EnsureTrailingNewline:
  "re_match_plain user l \<Longrightarrow> re_match_plain user (EnsureTrailingNewline l)"
  by (simp add: EnsureTrailingNewline_def re_match_plain_append)

lemma not_in_normalised:
  assumes "filter (re_match_plain user) (map EnsureTrailingNewline ls) = []"
  shows "filter (re_match_plain user) ls = []"
  using assms
  by (auto simp: filter_empty_conv dest: re_match_plain_EnsureTrailingNewline)

lemma rule_lines_candidate:
  assumes "newline \<notin> set user"
    and "filter (re_match_plain user) (map EnsureTrailingNewline (readlines c)) = []"
  shows "rule_lines user (writelines (candidate_lines user (readlines c))) =
         [EnsureTrailingNewline (user @ '' ALL=NOPASSWD: ALL'')]"
proof -
  have "filter (spec_rule_line user) (map EnsureTrailingNewline (readlines c)) = []"
    using assms(2) spec_rule_line_found
    by (auto simp: filter_empty_conv)
  then show ?thesis
    using assms(1)
    by (simp add: rule_lines_def readlines_candidate) (simp add: candidate_lines_def rule_line_spec)
qed

text \<open>The state a run ends in when nothing fails.\<close>

lemma MakeUserSudoer_no_fault:
  assumes "\<forall>at. \<not> fails env at" and "plain_name user"
  shows "fst (snd (MakeUserSudoer env user s)) =
    (case sudoers s of
       None \<Rightarrow> s
     | Some c \<Rightarrow>
         if filter (re_match_plain user) (readlines c) \<noteq> [] \<or> lock s then s
         else if IsValidSudoersFile env (Some (writelines (candidate_lines user (readlines c))))
         then s\<lparr>sudoers := Some (writelines (candidate_lines user (readlines c))),
                sudoers_mode := 288, lock := False, tmp := None\<rparr>
         else s\<lparr>lock := False, tmp := None\<rparr>)"
  using assms
  by (simp add: MakeUserSudoer_def critical_section_def validated_write_def
      validate_and_write_def write_live_def OpenFile_w_def LockSudoers_def UnlockSudoers_def os_open_excl_def
      os_unlink_lock_def read_sudoers_def OpenFile_r_def put_def Let_def
      IsUserSudoerInLines_plain split: option.splits)

lemma second_call_no_change:
  assumes "\<forall>at. \<not> fails env at" and "plain_name user" and "newline \<notin> set user"
  shows "fst (snd (MakeUserSudoer env user (fst (snd (MakeUserSudoer env user s))))) =
         fst (snd (MakeUserSudoer env user s))"
proof (cases "sudoers s")
  case None
  with assms(1,2) show ?thesis by (simp add: MakeUserSudoer_no_fault)
next
  case (Some c)
  let ?cand = "writelines (candidate_lines user (readlines c))"
  have found: "filter (re_match_plain user) (readlines ?cand) \<noteq> []"
    using assms(3) by (simp add: readlines_candidate candidate_rule_lines)
  show ?thesis
    using assms(1,2) Some found by (simp add: MakeUserSudoer_no_fault)
qed

text \<open>
  Claim C4, as stated: for every initial sudoers file, two calls for the same
  user end with exactly one (at most one) rule line for that user.  It fails on a
  file that already has two rule lines for \<^verbatim>\<open>alice\<close>: both calls find a rule and
  leave the file as it is, with two.
\<close>

theorem MakeUserSudoer_keeps_two_rules:
  "map_option (\<lambda>c. length (rule_lines ''alice'' c))
     (sudoers (fst (snd (MakeUserSudoer env_ok ''alice''
        (fst (snd (MakeUserSudoer env_ok ''alice'' sudoers_alice_twice))))))) = Some 2"
proof -
  have nf: "\<forall>at. \<not> fails env_ok at"
    by (simp add: env_ok_def)
  have pl: "plain_name ''alice''"
    by (simp add: plain_name_def other_specials_def)
  have "filter (re_match_plain ''alice'')
      (readlines ''alice ALL=(ALL) ALL\<newline>alice ALL=NOPASSWD: ALL\<newline>'') \<noteq> []"
    by (simp add: run_defs)
  then have "fst (snd (MakeUserSudoer env_ok ''alice'' sudoers_alice_twice)) = sudoers_alice_twice"
    using nf pl by (simp add: MakeUserSudoer_no_fault sudoers_alice_twice_def)
  then show ?thesis
    by (simp add: sudoers_alice_twice_def rule_lines_def spec_rule_line_def startswith_def
        is_space_def readlines_def newline_def)
qed

text \<open>
  Claim C4, amended.  For a valid user name and with no input or output error, a
  second call of the Sudoers Editor leaves the system as the first call left it:
  it adds no line.  When the membership test finds no rule for the user in the
  initial file (also once its last line has its newline), the lock marker is not
  there and the policy checker accepts the candidate, the final file has exactly
  one rule line for the user, the one added.
\<close>

theorem MakeUserSudoer_twice:
  assumes "\<forall>at. \<not> fails env at" and "IsValidUsername user"
  shows "fst (snd (MakeUserSudoer env user (fst (snd (MakeUserSudoer env user s))))) =
           fst (snd (MakeUserSudoer env user s)) \<and>
    (sudoers s = Some c \<and> \<not> lock s \<and>
     IsUserSudoerInLines env user (map EnsureTrailingNewline (readlines c)) = Inr [] \<and>
     IsValidSudoersFile env (Some (writelines (candidate_lines user (readlines c)))) \<longrightarrow>
       map_option (rule_lines user)
         (sudoers (fst (snd (MakeUserSudoer env user (fst (snd (MakeUserSudoer env user s))))))) =
       Some [user @ '' ALL=NOPASSWD: ALL\<newline>''])"
proof -
  have nl: "newline \<notin> set user"
    using assms(2) by (rule valid_username_no_newline)
  have pl: "plain_name user"
    using assms(2) by (rule valid_username_plain)
  have twice: "fst (snd (MakeUserSudoer env user (fst (snd (MakeUserSudoer env user s))))) =
           fst (snd (MakeUserSudoer env user s))"
    using assms(1) pl nl by (rule second_call_no_change)
  show ?thesis
    unfolding twice
    using assms(1) nl pl
    by (auto simp: MakeUserSudoer_no_fault IsUserSudoerInLines_plain not_in_normalised
        rule_lines_candidate rule_line_text)
qed

theorem MakeUserSudoer_twice_witness:
  "(\<forall>at. \<not> fails env_ok at) \<and> IsValidUsername ''alice'' \<and>
   sudoers sudoers_root = Some ''root ALL=(ALL) ALL\<newline>'' \<and> \<not> lock sudoers_root \<and>
   IsUserSudoerInLines env_ok ''alice''
     (map EnsureTrailingNewline (readlines ''root ALL=(ALL) ALL\<newline>'')) = Inr [] \<and>
   IsValidSudoersFile env_ok (Some (writelines (candidate_lines ''alice''
     (readlines ''root ALL=(ALL) ALL\<newline>'')))) \<and>
   map_option (rule_lines ''alice'')
     (sudoers (fst (snd (MakeUserSudoer env_ok ''alice''
        (fst (snd (MakeUserSudoer env_ok ''alice'' sudoers_root))))))) =
     Some [''alice ALL=NOPASSWD: ALL\<newline>'']"
proof -
  have nf: "\<forall>at. \<not> fails env_ok at"
    by (simp add: env_ok_def)
  have v: "IsValidUsername ''alice''"
    by (simp add: IsValidUsername_def InvalidCharacterFilter_def VALID_USERNAME_CHARS_spec
        spec_username_chars_def startswith_def)
  have c: "sudoers sudoers_root = Some ''root ALL=(ALL) ALL\<newline>''" "\<not> lock sudoers_root"
    by (simp_all add: sudoers_root_def)
  have n: "IsUserSudoerInLines env_ok ''alice''
     (map EnsureTrailingNewline (readlines ''root ALL=(ALL) ALL\<newline>'')) = Inr []"
    by (simp add: run_defs)
  have a: "IsValidSudoersFile env_ok (Some (writelines (candidate_lines ''alice''
     (readlines ''root ALL=(ALL) ALL\<newline>''))))"
    by (simp add: env_ok_def)
  have "map_option (rule_lines ''alice'')
     (sudoers (fst (snd (MakeUserSudoer env_ok ''alice''
        (fst (snd (MakeUserSudoer env_ok ''alice'' sudoers_root))))))) =
     Some [''alice ALL=NOPASSWD: ALL\<newline>'']"
    using MakeUserSudoer_twice [OF nf v, of sudoers_root "''root ALL=(ALL) ALL\<newline>''",
        THEN conjunct2] c n a
    by simp
  with nf v c n a show ?thesis
    by blast
qed

subsection \<open>The lines of the authorized keys file that are kept\<close>

lemma concat_map_if: "concat (map (\<lambda>x. if P x then [f x] else []) xs) = map f (filter P xs)"
  by (induction xs) auto

lemma google_added_ixs_iff:
  "i < length lines \<Longrightarrow>
   i \<in> set (google_added_ixs lines) \<longleftrightarrow>
     (Suc i < length lines \<and> startswith (lines ! i) google_marker) \<or>
     (0 < i \<and> startswith (lines ! (i - 1)) google_marker)"
  by (cases i) (auto simp: google_added_ixs_def Let_def)

lemma user_lines_filter:
  "user_lines lines =
     map ((!) lines) (filter (\<lambda>i. i \<notin> set (google_added_ixs lines)) [0 ..< length lines])"
  by (simp add: user_lines_def concat_map_if)

lemma user_lines_dropped:
  "user_lines lines =
     map ((!) lines) (filter (\<lambda>i. \<not> dropped False lines i) [0 ..< length lines])"
proof -
  have "filter (\<lambda>i. i \<notin> set (google_added_ixs lines)) [0 ..< length lines] =
        filter (\<lambda>i. \<not> dropped False lines i) [0 ..< length lines]"
    by (rule filter_cong) (auto simp: google_added_ixs_iff dropped_def)
  then show ?thesis by (simp add: user_lines_filter)
qed

lemma dropped_Suc:
  "i < length xs \<Longrightarrow> dropped after (x # xs) (Suc i) = dropped (startswith x google_marker) xs i"
  by (cases i) (auto simp: dropped_def)

lemma dropped_0:
  "dropped after (x # xs) 0 = ((xs \<noteq> [] \<and> startswith x google_marker) \<or> after)"
  by (auto simp: dropped_def)

lemma keep_step:
  "map ((!) (x # xs)) (filter (\<lambda>i. \<not> dropped after (x # xs) i) [0 ..< length (x # xs)]) =
   (if (xs \<noteq> [] \<and> startswith x google_marker) \<or> after then [] else [x]) @
   map ((!) xs) (filter (\<lambda>i. \<not> dropped (startswith x google_marker) xs i) [0 ..< length xs])"
proof -
  have upt: "[0 ..< length (x # xs)] = 0 # map Suc [0 ..< length xs]"
    by (simp add: upt_conv_Cons map_Suc_upt del: upt_Suc)
  have rest: "filter (\<lambda>i. \<not> dropped after (x # xs) (Suc i)) [0 ..< length xs] =
      filter (\<lambda>i. \<not> dropped (startswith x google_marker) xs i) [0 ..< length xs]"
    by (rule filter_cong) (auto simp: dropped_Suc)
  have "map ((!) (x # xs))
          (filter (\<lambda>i. \<not> dropped after (x # xs) i) (0 # map Suc [0 ..< length xs])) =
      (if dropped after (x # xs) 0 then [] else [x]) @
      map ((!) xs) (filter (\<lambda>i. \<not> dropped after (x # xs) (Suc i)) [0 ..< length xs])"
    by (simp add: filter_map comp_def)
  then show ?thesis
    by (simp only: upt rest dropped_0)
qed

lemma keep_dropped:
  "keep after xs = map ((!) xs) (filter (\<lambda>i. \<not> dropped after xs i) [0 ..< length xs])"
proof (induction after xs rule: keep.induct)
  case (1 after)
  then show ?case by simp
next
  case (2 after x)
  then show ?case by (simp add: dropped_def)
next
  case (3 after x y ys)
  show ?case
    using 3 by (subst keep_step) auto
qed

lemma user_lines_keep: "user_lines lines = keep False lines"
  by (simp add: user_lines_dropped keep_dropped)

lemma user_lines_nths: "user_lines lines = nths lines {i. i \<notin> set (google_added_ixs lines)}"
proof -
  have "zip lines [0 ..< length lines] = map (\<lambda>i. (lines ! i, i)) [0 ..< length lines]"
    by (rule nth_equalityI) auto
  then show ?thesis
    by (simp add: user_lines_filter nths_def filter_map comp_def)
qed

text \<open>
  Claim C7, as stated: a line is left out exactly when it is a line, not the
  last, that exactly matches the marker comment, or comes right after such a
  line.  It fails: a line of the user that only begins like the marker, and the
  line after it, are left out as well.
\<close>

theorem user_lines_drops_own_comment:
  "google_added_ixs lines_own_comment = [0, 1] \<and>
   \<not> spec_excluded lines_own_comment 0 \<and> \<not> spec_excluded lines_own_comment 1 \<and>
   user_lines lines_own_comment = [''ssh-rsa CCCC carol\<newline>'']"
  by (simp add: google_added_ixs_def user_lines_def lines_own_comment_def startswith_def
      google_marker_def spec_excluded_def spec_marker_line_def newline_def upt_conv_Cons)

text \<open>
  Claim C7, amended.  A line of the existing file is left out of the preserved
  lines exactly when it is not the last line and begins with the marker text
  \<^verbatim>\<open># Added by Google\<close>, or comes right after such a line.  The preserved lines
  are the other lines, as they are and in their order.  A last line is therefore
  kept, marker or not, unless the line before it begins with the marker text.
\<close>

theorem user_lines_startswith:
  "(\<forall>i < length lines.
      i \<in> set (google_added_ixs lines) \<longleftrightarrow>
        (Suc i < length lines \<and> startswith (lines ! i) google_marker) \<or>
        (0 < i \<and> startswith (lines ! (i - 1)) google_marker)) \<and>
   user_lines lines = nths lines {i. i \<notin> set (google_added_ixs lines)} \<and>
   (lines \<noteq> [] \<and>
    (length lines = 1 \<or> \<not> startswith (lines ! (length lines - 2)) google_marker) \<longrightarrow>
      length lines - 1 \<notin> set (google_added_ixs lines))"
proof (intro conjI allI impI)
  fix i
  assume "i < length lines"
  then show "i \<in> set (google_added_ixs lines) \<longleftrightarrow>
        (Suc i < length lines \<and> startswith (lines ! i) google_marker) \<or>
        (0 < i \<and> startswith (lines ! (i - 1)) google_marker)"
    by (rule google_added_ixs_iff)
next
  show "user_lines lines = nths lines {i. i \<notin> set (google_added_ixs lines)}"
    by (rule user_lines_nths)
next
  assume a: "lines \<noteq> [] \<and>
    (length lines = 1 \<or> \<not> startswith (lines ! (length lines - 2)) google_marker)"
  then have "length lines - 1 < length lines"
    by (cases lines) auto
  moreover have "length lines - 1 - 1 = length lines - 2"
    by simp
  ultimately show "length lines - 1 \<notin> set (google_added_ixs lines)"
    using a by (auto simp: google_added_ixs_iff)
qed

theorem user_lines_startswith_witness:
  "length lines_trailing_marker = 4 \<and>
   startswith (lines_trailing_marker ! 3) google_marker \<and>
   \<not> startswith (lines_trailing_marker ! 2) google_marker \<and>
   3 \<notin> set (google_added_ixs lines_trailing_marker) \<and>
   1 \<in> set (google_added_ixs lines_trailing_marker) \<and>
   user_lines lines_trailing_marker =
     nths lines_trailing_marker {i. i \<notin> set (google_added_ixs lines_trailing_marker)} \<and>
   user_lines lines_trailing_marker = [''ssh-rsa UUUU user\<newline>'', ''# Added by Google\<newline>'']"
proof -
  have l: "length lines_trailing_marker = 4"
    by (simp add: lines_trailing_marker_def)
  have m: "startswith (lines_trailing_marker ! 3) google_marker"
    "\<not> startswith (lines_trailing_marker ! 2) google_marker"
    "startswith (lines_trailing_marker ! 1) google_marker"
    by (simp_all add: lines_trailing_marker_def startswith_def google_marker_def)
  have u: "user_lines lines_trailing_marker =
      [''ssh-rsa UUUU user\<newline>'', ''# Added by Google\<newline>'']"
    by (simp add: user_lines_keep lines_trailing_marker_def startswith_def google_marker_def)
  show ?thesis
    using user_lines_startswith [of lines_trailing_marker] l m u
    by (auto simp: numeral_eq_Suc)
qed

subsection \<open>Merging the keys\<close>

lemma marker_line: "startswith (google_marker @ [newline]) google_marker"
  by (simp add: startswith_def)

lemma keep_render:
  assumes "\<forall>l \<in> set (unmanaged es). \<not> startswith l google_marker"
    and "\<forall>key \<in> set (managed es). \<not> startswith key google_marker"
  shows "keep False (render es) = unmanaged es"
  using assms
proof (induction es rule: render.induct)
  case 1
  then show ?case by simp
next
  case (2 line es)
  then show ?case by (cases "render es") auto
next
  case (3 key es)
  then show ?case by (cases "render es") (auto simp: marker_line)
qed

text \<open>What the method leaves behind when nothing fails.\<close>

lemma WriteAuthorizedSshKeysFile_no_fault:
  assumes "\<forall>at. \<not> fails env at"
  shows "WriteAuthorizedSshKeysFile env ssh_keys uid gid k =
    (Returned,
     \<lparr>authorized_keys = Some
        \<lparr>content = keys_file_content
           (user_lines (case authorized_keys k of None \<Rightarrow> [] | Some f \<Rightarrow> readlines (content f)))
           ssh_keys,
         mode = 384, owner = (uid, gid)\<rparr>,
      new_keys = None\<rparr>)"
  using assms
  by (simp add: WriteAuthorizedSshKeysFile_def CreateTempFile_def MoveFile_def read_keys_def OpenFile_r_def Let_def split: option.splits)

text \<open>
  Claim C3, as stated: whatever the N unmanaged lines are, they are all in the
  file afterwards, unchanged.  It fails on a file whose two lines are a comment
  of the user that begins like the marker and the user's key: neither is a
  managed pair in the specification's reading, and both are gone afterwards.
\<close>

theorem WriteAuthorizedSshKeysFile_loses_own_comment:
  "readlines ''# Added by Googler Bob\<newline>ssh-rsa BBBB bob\<newline>'' =
     render [Unmanaged ''# Added by Googler Bob\<newline>'', Unmanaged ''ssh-rsa BBBB bob\<newline>''] \<and>
   WriteAuthorizedSshKeysFile env_ok [''ssh-rsa AAAA alice''] 1000 1000 keys_own_comment =
     (Returned,
      \<lparr>authorized_keys = Some \<lparr>content = ''# Added by Google\<newline>ssh-rsa AAAA alice\<newline>'',
         mode = 384, owner = (1000, 1000)\<rparr>,
       new_keys = None\<rparr>)"
proof -
  have nf: "\<forall>at. \<not> fails env_ok at"
    by (simp add: env_ok_def)
  have r: "readlines ''# Added by Googler Bob\<newline>ssh-rsa BBBB bob\<newline>'' =
      [''# Added by Googler Bob\<newline>'', ''ssh-rsa BBBB bob\<newline>'']"
    by (simp add: readlines_def newline_def)
  have "user_lines [''# Added by Googler Bob\<newline>'', ''ssh-rsa BBBB bob\<newline>''] = []"
    by (simp add: user_lines_keep startswith_def google_marker_def)
  with r show ?thesis
    by (simp add: WriteAuthorizedSshKeysFile_no_fault [OF nf] keys_own_comment_def
        keys_file_content_def EnsureTrailingNewline_def endswith_def google_marker_def
        newline_def)
qed

text \<open>
  Claim C3, amended.  Take an existing authorized keys file whose lines are N
  unmanaged lines and M managed pairs (the marker line, then a key line), where
  no unmanaged line and no key line of an old pair begins with the marker text
  \<^verbatim>\<open># Added by Google\<close>, and a list of K keys; let nothing fail.  Afterwards the
  file consists of the N unmanaged lines in their order, each ending in a newline
  (a last line without one gets it, nothing else changes), followed by K pairs:
  the marker line and then the key, ending in a newline, in the order of the
  list.  None of the old pairs remains.
\<close>

theorem WriteAuthorizedSshKeysFile_merge:
  assumes "\<forall>at. \<not> fails env at"
    and "authorized_keys k = Some f" and "readlines (content f) = render es"
    and "\<forall>l \<in> set (unmanaged es). \<not> startswith l google_marker"
    and "\<forall>key \<in> set (managed es). \<not> startswith key google_marker"
  shows "fst (WriteAuthorizedSshKeysFile env ssh_keys uid gid k) = Returned \<and>
    map_option content (authorized_keys (snd (WriteAuthorizedSshKeysFile env ssh_keys uid gid k))) =
      Some (concat (map EnsureTrailingNewline (unmanaged es)) @
            concat (map (\<lambda>key. (google_marker @ [newline]) @ EnsureTrailingNewline key) ssh_keys))"
proof -
  have "user_lines (render es) = unmanaged es"
    using assms(4,5) by (simp add: user_lines_keep keep_render)
  with assms(2,3) show ?thesis
    by (simp add: WriteAuthorizedSshKeysFile_no_fault [OF assms(1)] keys_file_content_def)
qed

theorem WriteAuthorizedSshKeysFile_merge_witness:
  "(\<forall>at. \<not> fails env_ok at) \<and>
   map_option (\<lambda>f. readlines (content f)) (authorized_keys keys_mixed) =
     Some (render [Unmanaged ''ssh-rsa UUUU user\<newline>'', Managed ''ssh-rsa OOOO old\<newline>'',
                   Unmanaged ''ssh-rsa VVVV user'']) \<and>
   map_option content (authorized_keys (snd
     (WriteAuthorizedSshKeysFile env_ok [''ssh-rsa NNNN new''] 1000 1000 keys_mixed))) =
     Some ''ssh-rsa UUUU user\<newline>ssh-rsa VVVV user\<newline># Added by Google\<newline>ssh-rsa NNNN new\<newline>''"
proof -
  let ?f = "\<lparr>content =
      ''ssh-rsa UUUU user\<newline># Added by Google\<newline>ssh-rsa OOOO old\<newline>ssh-rsa VVVV user'',
      mode = 384, owner = (1000, 1000)\<rparr>"
  let ?es = "[Unmanaged ''ssh-rsa UUUU user\<newline>'', Managed ''ssh-rsa OOOO old\<newline>'',
      Unmanaged ''ssh-rsa VVVV user'']"
  have nf: "\<forall>at. \<not> fails env_ok at"
    by (simp add: env_ok_def)
  have k: "authorized_keys keys_mixed = Some ?f"
    by (simp add: keys_mixed_def)
  have r: "readlines (content ?f) = render ?es"
    by (simp add: readlines_def newline_def google_marker_def)
  have u: "\<forall>l \<in> set (unmanaged ?es). \<not> startswith l google_marker"
    by (simp add: startswith_def google_marker_def)
  have m: "\<forall>key \<in> set (managed ?es). \<not> startswith key google_marker"
    by (simp add: startswith_def google_marker_def)
  show ?thesis
    using WriteAuthorizedSshKeysFile_merge [OF nf k r u m, of "[''ssh-rsa NNNN new'']" 1000 1000]
      nf k r
    by (simp add: EnsureTrailingNewline_def endswith_def google_marker_def newline_def)
qed

end
